theory Spec2Isabelle
  imports Main "HOL-Library.Word"
begin

unbundle bit_operations_syntax

section \<open>Go values\<close>

text \<open>
  The archive engine is the Go package \<open>d2mpq\<close>. Its machine integers are words of the
  width the source declares. A Go \<open>string\<close> that is used as a name is represented by the
  sequence of code points that \<open>for _, char := range s\<close> yields from it (a \<open>rune\<close>
  each, U+FFFD for an invalid byte); that is the view \<open>hashString\<close> and the
  \<open>strings\<close> case mappings have of a string, and the separators and the \<open>{LANG}\<close>
  token are ASCII, so the byte-level library functions act on it the same way. Raw file
  contents are byte lists.
\<close>

type_synonym u8 = "8 word"
type_synonym u16 = "16 word"
type_synonym u32 = "32 word"
type_synonym rune = nat
type_synonym gostring = "rune list"

text \<open>An ASCII literal of the source, as a Go string.\<close>

definition lit :: "string \<Rightarrow> gostring" where
  "lit s = map of_char s"

text \<open>
  A Go function of the package ends in one of three ways: it returns its value, it
  returns an \<open>error\<close>, or it panics (\<open>log.Panic\<close>, or the runtime's index check).
\<close>

datatype go_error =
    ErrFileNotFound        \<comment> \<open>\<open>errors.New("file not found")\<close>\<close>
  | ErrInvalidHeader       \<comment> \<open>\<open>errors.New("invalid mpq header")\<close>\<close>
  | ErrEOF                 \<comment> \<open>\<open>io.EOF\<close>\<close>
  | ErrUnexpectedEOF       \<comment> \<open>\<open>io.ErrUnexpectedEOF\<close>\<close>
  | ErrSeek                \<comment> \<open>the error of a failed \<open>File.Seek\<close>\<close>
  | ErrOpen                \<comment> \<open>the error of a failed \<open>os.Open\<close>\<close>
  | ErrReadDir             \<comment> \<open>the error of a failed \<open>ioutil.ReadDir\<close>\<close>
  | ErrStream              \<comment> \<open>an error returned by \<open>CreateStream\<close>\<close>

datatype failure =
    Returned go_error      \<comment> \<open>the function returned this error to its caller\<close>
  | LogPanic go_error      \<comment> \<open>\<open>log.Panic(err)\<close>\<close>
  | IndexOutOfRange        \<comment> \<open>run-time panic of an index expression\<close>

section \<open>Data model\<close>

text \<open>
  The structs of the package. Isabelle record fields are global names, so the fields
  \<open>FileName\<close> of \<open>MPQ\<close> and \<open>HashTableEntries\<close>, \<open>BlockTableEntries\<close> of \<open>Data\<close>
  carry the struct name as a prefix. An open \<open>*os.File\<close> is its contents, its cursor,
  and whether the descriptor can seek.
\<close>

record HashTableEntry =
  NamePartA :: u32
  NamePartB :: u32
  Locale :: u16
  Platform :: u16
  BlockIndex :: u32

record BlockTableEntry =
  FilePosition :: u32
  CompressedFileSize :: u32
  UncompressedFileSize :: u32
  Flags :: u32
  FileName :: gostring
  EncryptionSeed :: u32

record Data =
  Magic :: "u8 list"
  HeaderSize :: u32
  ArchiveSize :: u32
  FormatVersion :: u16
  BlockSize :: u16
  HashTableOffset :: u32
  BlockTableOffset :: u32
  Data_HashTableEntries :: u32
  Data_BlockTableEntries :: u32

record File =
  file_bytes :: "u8 list"
  file_pos :: nat
  file_seekable :: bool

record MPQ =
  MPQ_FileName :: gostring
  File :: File
  HashTableEntries :: "HashTableEntry list"
  BlockTableEntries :: "BlockTableEntry list"
  Data :: Data
  fileCache :: "gostring \<rightharpoonup> u8 list"

text \<open>The zero values \<open>HashTableEntry{}\<close>, \<open>BlockTableEntry{}\<close> and \<open>Data{}\<close>.\<close>

definition zeroBlockTableEntry :: BlockTableEntry where
  "zeroBlockTableEntry =
     \<lparr>FilePosition = 0, CompressedFileSize = 0, UncompressedFileSize = 0, Flags = 0,
      FileName = [], EncryptionSeed = 0\<rparr>"

definition zeroData :: Data where
  "zeroData =
     \<lparr>Magic = [0, 0, 0, 0], HeaderSize = 0, ArchiveSize = 0, FormatVersion = 0, BlockSize = 0,
      HashTableOffset = 0, BlockTableOffset = 0, Data_HashTableEntries = 0,
      Data_BlockTableEntries = 0\<rparr>"

definition FileFixKey :: u32 where
  "FileFixKey = 0x00020000"

definition HasFlag :: "BlockTableEntry \<Rightarrow> u32 \<Rightarrow> bool" where
  "HasFlag v flag = (Flags v AND flag \<noteq> 0)"

text \<open>
  What the package takes from outside the source files: the contents of the keystream
  table \<open>CryptoBuffer\<close> (filled in elsewhere in the package), the constant
  \<open>d2resource.LanguageCode\<close>, the Unicode case tables behind \<open>unicode.ToUpper\<close>
  and \<open>unicode.ToLower\<close> for runes outside ASCII, and the sector extractor:
  \<open>readStream\<close> stands for \<open>CreateStream(v, fileBlockData, fileName)\<close> followed by
  \<open>mpqStream.Read\<close> into the fresh buffer, and gives either the failure of
  \<open>CreateStream\<close> or the buffer after the read.
\<close>

record deps =
  CryptoBuffer :: "nat \<Rightarrow> u32"
  LanguageCode :: gostring
  unicode_ToUpper :: "rune \<Rightarrow> rune"
  unicode_ToLower :: "rune \<Rightarrow> rune"
  readStream :: "MPQ \<Rightarrow> BlockTableEntry \<Rightarrow> gostring \<Rightarrow> failure + u8 list"

section \<open>Crypto engine\<close>

text \<open>
  Modelled from the spec: \<open>CryptoBuffer\<close> is declared outside the source files; the
  spec gives it 0x500 entries. An index expression on it panics from 0x500 on.
\<close>

definition cryptoAt :: "deps \<Rightarrow> u32 \<Rightarrow> failure + u32" where
  "cryptoAt D i = (if unat i < 0x500 then Inr (CryptoBuffer D (unat i)) else Inl IndexOutOfRange)"

text \<open>\<open>strings.ToUpper\<close> and \<open>strings.ToLower\<close>: rune by rune, ASCII written out.\<close>

definition toUpperRune :: "deps \<Rightarrow> rune \<Rightarrow> rune" where
  "toUpperRune D r =
     (if r < 0x80 then (if 0x61 \<le> r \<and> r \<le> 0x7A then r - 0x20 else r)
      else unicode_ToUpper D r)"

definition toLowerRune :: "deps \<Rightarrow> rune \<Rightarrow> rune" where
  "toLowerRune D r =
     (if r < 0x80 then (if 0x41 \<le> r \<and> r \<le> 0x5A then r + 0x20 else r)
      else unicode_ToLower D r)"

definition strings_ToUpper :: "deps \<Rightarrow> gostring \<Rightarrow> gostring" where
  "strings_ToUpper D s = map (toUpperRune D) s"

definition strings_ToLower :: "deps \<Rightarrow> gostring \<Rightarrow> gostring" where
  "strings_ToLower D s = map (toLowerRune D) s"

text \<open>
  \<open>hashString\<close>: the loop over the runes of the upper-cased key, with the two seeds as
  loop state.
\<close>

fun hashString_loop :: "deps \<Rightarrow> u32 \<Rightarrow> u32 \<Rightarrow> u32 \<Rightarrow> gostring \<Rightarrow> failure + u32" where
  "hashString_loop D hashType seed1 seed2 [] = Inr seed1"
| "hashString_loop D hashType seed1 seed2 (char # rest) =
     (case cryptoAt D (hashType * 0x100 + of_nat char) of
        Inl p \<Rightarrow> Inl p
      | Inr t \<Rightarrow>
          (let seed1' = t XOR (seed1 + seed2);
               seed2' = of_nat char + seed1' + seed2 + push_bit 5 seed2 + 3
           in hashString_loop D hashType seed1' seed2' rest))"

definition hashString :: "deps \<Rightarrow> gostring \<Rightarrow> u32 \<Rightarrow> failure + u32" where
  "hashString D key hashType =
     hashString_loop D hashType 0x7FED7FED 0xEEEEEEEE (strings_ToUpper D key)"

text \<open>
  \<open>decrypt\<close>: one iteration of the loop body, on the pair \<open>(seed, seed2)\<close> and the word
  \<open>data[i]\<close>. The table index \<open>0x400 + (seed & 0xff)\<close> is below 0x500, so the index
  expression cannot panic. The run records, for every iteration, the word written back and
  the two seeds after it; \<open>decrypt\<close> is the list of the words written back.
\<close>

record decrypt_iter =
  out_word :: u32
  seed_after :: u32
  seed2_after :: u32

definition next_seed :: "u32 \<Rightarrow> u32" where
  "next_seed seed = (push_bit 21 (NOT seed) + 0x11111111) OR drop_bit 11 seed"

definition decrypt_step :: "deps \<Rightarrow> u32 \<Rightarrow> u32 \<Rightarrow> u32 \<Rightarrow> decrypt_iter" where
  "decrypt_step D seed seed2 w =
     (let seed2a = seed2 + CryptoBuffer D (0x400 + unat (seed AND 0xff));
          result = w XOR (seed + seed2a)
      in \<lparr>out_word = result,
          seed_after = next_seed seed,
          seed2_after = result + seed2a + push_bit 5 seed2a + 3\<rparr>)"

fun decrypt_run :: "deps \<Rightarrow> u32 \<Rightarrow> u32 \<Rightarrow> u32 list \<Rightarrow> decrypt_iter list" where
  "decrypt_run D seed seed2 [] = []"
| "decrypt_run D seed seed2 (w # ws) =
     (let it = decrypt_step D seed seed2 w
      in it # decrypt_run D (seed_after it) (seed2_after it) ws)"

definition decrypt :: "deps \<Rightarrow> u32 list \<Rightarrow> u32 \<Rightarrow> u32 list" where
  "decrypt D data seed = map out_word (decrypt_run D seed 0xeeeeeeee data)"

text \<open>
  \<open>decryptBytes\<close>: the same body on a byte slice, four bytes at index \<open>i\<close> at a time,
  written back in place; the loop runs while \<open>i < len(data) - 3\<close> (on \<open>int\<close>).
\<close>

definition Uint32 :: "u8 list \<Rightarrow> u32" where
  "Uint32 b = ucast (b ! 0) OR push_bit 8 (ucast (b ! 1)) OR push_bit 16 (ucast (b ! 2))
                OR push_bit 24 (ucast (b ! 3))"

definition put4 :: "u8 list \<Rightarrow> nat \<Rightarrow> u32 \<Rightarrow> u8 list" where
  "put4 data i result =
     data[i := ucast (result AND 0xff),
          i + 1 := ucast (drop_bit 8 result AND 0xff),
          i + 2 := ucast (drop_bit 16 result AND 0xff),
          i + 3 := ucast (drop_bit 24 result AND 0xff)]"

function decryptBytes_loop :: "deps \<Rightarrow> u8 list \<Rightarrow> u32 \<Rightarrow> u32 \<Rightarrow> nat \<Rightarrow> u8 list" where
  "decryptBytes_loop D data seed seed2 i =
     (if int i < int (length data) - 3
      then decryptBytes_loop D
             (put4 data i (out_word (decrypt_step D seed seed2 (Uint32 (take 4 (drop i data))))))
             (seed_after (decrypt_step D seed seed2 (Uint32 (take 4 (drop i data)))))
             (seed2_after (decrypt_step D seed seed2 (Uint32 (take 4 (drop i data)))))
             (i + 4)
      else data)"
  by pat_completeness auto
termination
  by (relation "measure (\<lambda>(D, data, seed, seed2, i). length data - i)")
     (auto simp: put4_def)

definition decryptBytes :: "deps \<Rightarrow> u8 list \<Rightarrow> u32 \<Rightarrow> u8 list" where
  "decryptBytes D data seed = decryptBytes_loop D data seed 0xEEEEEEEE 0"

section \<open>File locator\<close>

text \<open>
  \<open>getFileHashEntry\<close>: the two hashes, then the scan of the hash table in stored order;
  an entry is skipped when either name part differs.
\<close>

fun scanHashTable :: "HashTableEntry list \<Rightarrow> u32 \<Rightarrow> u32 \<Rightarrow> failure + HashTableEntry" where
  "scanHashTable [] hashA hashB = Inl (Returned ErrFileNotFound)"
| "scanHashTable (hashEntry # rest) hashA hashB =
     (if NamePartA hashEntry \<noteq> hashA then scanHashTable rest hashA hashB
      else if NamePartB hashEntry \<noteq> hashB then scanHashTable rest hashA hashB
      else Inr hashEntry)"

definition getFileHashEntry :: "deps \<Rightarrow> MPQ \<Rightarrow> gostring \<Rightarrow> failure + HashTableEntry" where
  "getFileHashEntry D v fileName =
     (case hashString D fileName 1 of
        Inl p \<Rightarrow> Inl p
      | Inr hashA \<Rightarrow>
          (case hashString D fileName 2 of
             Inl p \<Rightarrow> Inl p
           | Inr hashB \<Rightarrow> scanHashTable (HashTableEntries v) hashA hashB))"

text \<open>
  \<open>getFileBlockData\<close> returns \<open>(BlockTableEntry{}, err)\<close> when the lookup failed or the
  block index is not below \<open>uint32(len(v.BlockTableEntries))\<close>. In the second case
  \<open>err\<close> is \<open>nil\<close>: the caller receives the zero entry and no error.
\<close>

definition getFileBlockData :: "deps \<Rightarrow> MPQ \<Rightarrow> gostring \<Rightarrow> failure + BlockTableEntry" where
  "getFileBlockData D v fileName =
     (case getFileHashEntry D v fileName of
        Inl err \<Rightarrow> Inl err
      | Inr fileEntry \<Rightarrow>
          (if BlockIndex fileEntry \<ge> of_nat (length (BlockTableEntries v))
           then Inr zeroBlockTableEntry
           else Inr (BlockTableEntries v ! unat (BlockIndex fileEntry))))"

definition FileExists :: "deps \<Rightarrow> MPQ \<Rightarrow> gostring \<Rightarrow> failure + bool" where
  "FileExists D v fileName =
     (case getFileHashEntry D v fileName of
        Inl (Returned err) \<Rightarrow> Inr False
      | Inl p \<Rightarrow> Inl p
      | Inr fileEntry \<Rightarrow> Inr True)"

section \<open>Reading a file\<close>

text \<open>
  \<open>strings.ReplaceAll\<close>: non-overlapping matches from the left; an empty \<open>old\<close>
  matches before every rune and at the end.
\<close>

function ReplaceAll :: "gostring \<Rightarrow> gostring \<Rightarrow> gostring \<Rightarrow> gostring" where
  "ReplaceAll s old new =
     (if old = [] then new @ concat (map (\<lambda>c. c # new) s)
      else if s = [] then []
      else if take (length old) s = old then new @ ReplaceAll (drop (length old) s) old new
      else hd s # ReplaceAll (tl s) old new)"
  by pat_completeness auto
termination
  by (relation "measure (\<lambda>(s, old, new). length s)") auto

text \<open>\<open>path.Base\<close>: the separator is the slash \<open>/\<close> (0x2F).\<close>

definition path_Base :: "gostring \<Rightarrow> gostring" where
  "path_Base path =
     (if path = [] then lit ''.''
      else (let stripped = rev (dropWhile (\<lambda>c. c = 0x2F) (rev path));
                last_elem = rev (takeWhile (\<lambda>c. c \<noteq> 0x2F) (rev stripped))
            in if last_elem = [] then lit ''/'' else last_elem))"

definition calculateEncryptionSeed :: "deps \<Rightarrow> BlockTableEntry \<Rightarrow> failure + BlockTableEntry" where
  "calculateEncryptionSeed D v =
     (let fileName = path_Base (FileName v)
      in case hashString D fileName 3 of
           Inl p \<Rightarrow> Inl p
         | Inr h \<Rightarrow>
             (if \<not> HasFlag v FileFixKey then Inr (v\<lparr>EncryptionSeed := h\<rparr>)
              else Inr (v\<lparr>EncryptionSeed := (h + FilePosition v) XOR UncompressedFileSize v\<rparr>)))"

text \<open>
  The first three statements of \<open>ReadFile\<close>: the \<open>{LANG}\<close> token is replaced by the
  language code, the name is lower-cased, every slash becomes a backslash (0x5C).
\<close>

definition normalizedName :: "deps \<Rightarrow> gostring \<Rightarrow> gostring" where
  "normalizedName D fileName =
     ReplaceAll (strings_ToLower D (ReplaceAll fileName (lit ''{LANG}'') (LanguageCode D)))
       [0x2F] [0x5C]"

text \<open>
  \<open>ReadFile\<close> has a value receiver, but \<open>fileCache\<close> is a map, so the store into it is
  seen by the archive: the function returns the archive with the updated cache. A stored
  buffer comes from \<open>make\<close> and is never \<open>nil\<close>, so \<open>cached != nil\<close> is the presence of
  the key.
\<close>

definition ReadFile :: "deps \<Rightarrow> MPQ \<Rightarrow> gostring \<Rightarrow> (failure + u8 list) \<times> MPQ" where
  "ReadFile D v fileName0 =
     (let fileName = normalizedName D fileName0
      in case fileCache v fileName of
           Some cached \<Rightarrow> (Inr cached, v)
         | None \<Rightarrow>
             (case getFileBlockData D v fileName of
                Inl err \<Rightarrow> (Inl err, v)
              | Inr fileBlockData \<Rightarrow>
                  (case calculateEncryptionSeed D
                          (fileBlockData\<lparr>FileName := strings_ToLower D fileName\<rparr>) of
                     Inl p \<Rightarrow> (Inl p, v)
                   | Inr seeded \<Rightarrow>
                       (case readStream D v seeded fileName of
                          Inl err \<Rightarrow> (Inl err, v)
                        | Inr buffer \<Rightarrow>
                            (Inr buffer, v\<lparr>fileCache := (fileCache v)(fileName \<mapsto> buffer)\<rparr>)))))"

section \<open>Listfile\<close>

text \<open>
  \<open>GetFileList\<close> trims trailing NUL bytes and runs a \<open>bufio.Scanner\<close> with the default
  split function \<open>ScanLines\<close> over the rest: a line ends at a line feed (0x0A), one
  trailing carriage return (0x0D) is dropped from it, and a last line without a line feed
  is returned when it is not empty. Every line is appended to the result, empty ones too.
  The scanner's buffer holds at most 64 KiB, so it stops (\<open>ErrTooLong\<close>, which
  \<open>GetFileList\<close> does not look at) at a line of more than 65535 bytes. The lines are
  kept as byte strings.
\<close>

definition strings_TrimRight :: "u8 list \<Rightarrow> u8 \<Rightarrow> u8 list" where
  "strings_TrimRight s b = rev (dropWhile (\<lambda>c. c = b) (rev s))"

definition dropCR :: "u8 list \<Rightarrow> u8 list" where
  "dropCR data = (if data \<noteq> [] \<and> last data = 0x0D then butlast data else data)"

fun scanLines :: "u8 list \<Rightarrow> u8 list \<Rightarrow> u8 list list" where
  "scanLines line [] = (if line = [] then [] else [dropCR line])"
| "scanLines line (c # rest) =
     (if c = 0x0A then dropCR line # scanLines [] rest
      else if 65535 \<le> length line then []
      else scanLines (line @ [c]) rest)"

definition parseFileList :: "u8 list \<Rightarrow> u8 list list" where
  "parseFileList data = scanLines [] (strings_TrimRight data 0)"

definition GetFileList :: "deps \<Rightarrow> MPQ \<Rightarrow> (failure + u8 list list) \<times> MPQ" where
  "GetFileList D v =
     (case ReadFile D v (lit ''(listfile)'') of
        (Inl err, v') \<Rightarrow> (Inl err, v')
      | (Inr data, v') \<Rightarrow> (Inr (parseFileList data), v'))"

text \<open>
  The lines of a payload, for stating what the scanner returns: the payload is cut at
  every line feed, and an empty remainder after the last line feed is no line.
  \<open>open_line\<close> puts the bytes already scanned in front of the first line.
\<close>

fun lf_lines :: "u8 list \<Rightarrow> u8 list list" where
  "lf_lines [] = []"
| "lf_lines (c # cs) =
     (if c = 0x0A then [] # lf_lines cs
      else (case lf_lines cs of [] \<Rightarrow> [[c]] | l # ls \<Rightarrow> (c # l) # ls))"

definition open_line :: "u8 list \<Rightarrow> u8 list list \<Rightarrow> u8 list list" where
  "open_line line ls = (case ls of [] \<Rightarrow> (if line = [] then [] else [line]) | l # ls' \<Rightarrow> (line @ l) # ls')"

text \<open>Bytes of an ASCII literal.\<close>

definition bytes :: "string \<Rightarrow> u8 list" where
  "bytes s = map (\<lambda>c. of_nat (of_char c)) s"

section \<open>A sample environment\<close>

text \<open>
  The contents of the keystream table are not part of the sources, so concrete runs use a
  stand-in table; the language code is a three-letter code, the case tables are the
  identity outside ASCII, and the extractor fills the buffer with zero bytes. Statements that are not about this sample hold for every
  environment.
\<close>

definition sample_deps :: deps where
  "sample_deps = \<lparr>CryptoBuffer = (\<lambda>i. of_nat (i * i + 7 * i + 1)),
                  LanguageCode = lit ''eng'',
                  unicode_ToUpper = (\<lambda>r. r),
                  unicode_ToLower = (\<lambda>r. r),
                  readStream = (\<lambda>v b n. Inr (replicate (unat (UncompressedFileSize b)) 0))\<rparr>"

text \<open>
  Sample archives: \<open>sample_archive\<close> stores one file of three bytes under the name
  \<open>sample_path\<close>, that is \<open>data\a.txt\<close> (the two name parts are the hashes of that
  name under the sample table); \<open>listfile_archive\<close> stores a listfile, and
  \<open>listfile_deps\<close> is the sample environment with an extractor that delivers the given
  payload.
\<close>

definition archive_of :: "HashTableEntry list \<Rightarrow> BlockTableEntry list \<Rightarrow> MPQ" where
  "archive_of hs bs =
     \<lparr>MPQ_FileName = lit ''sample.mpq'',
      File = \<lparr>file_bytes = [], file_pos = 0, file_seekable = True\<rparr>,
      HashTableEntries = hs, BlockTableEntries = bs, Data = zeroData, fileCache = Map.empty\<rparr>"

definition sample_path :: gostring where
  "sample_path = lit ''data'' @ [0x5C] @ lit ''a.txt''"

definition sample_archive :: MPQ where
  "sample_archive =
     archive_of
       [\<lparr>NamePartA = 0x3A387218, NamePartB = 0x30548718, Locale = 0, Platform = 0, BlockIndex = 0\<rparr>]
       [\<lparr>FilePosition = 0x20, CompressedFileSize = 3, UncompressedFileSize = 3,
         Flags = 0x80000000, FileName = [], EncryptionSeed = 0\<rparr>]"

definition listfile_archive :: "u8 list \<Rightarrow> MPQ" where
  "listfile_archive payload =
     archive_of
       [\<lparr>NamePartA = 0x707A2B6A, NamePartB = 0x0F14426A, Locale = 0, Platform = 0, BlockIndex = 0\<rparr>]
       [\<lparr>FilePosition = 0x20, CompressedFileSize = of_nat (length payload),
         UncompressedFileSize = of_nat (length payload),
         Flags = 0x80000000, FileName = [], EncryptionSeed = 0\<rparr>]"

definition listfile_deps :: "u8 list \<Rightarrow> deps" where
  "listfile_deps payload = sample_deps\<lparr>readStream := (\<lambda>v b n. Inr payload)\<rparr>"

definition blank_line_payload :: "u8 list" where
  "blank_line_payload = bytes ''a'' @ [0x0A, 0x0A] @ bytes ''b''"

definition example_payload :: "u8 list" where
  "example_payload = bytes ''a.txt'' @ [0x0D, 0x0A] @ bytes ''b.txt'' @ [0x0D, 0x0A, 0, 0]"

section \<open>Crypto engine: properties\<close>

subsection \<open>The name hash\<close>

lemma toUpperRune_ascii_idem:
  "r < 0x80 \<Longrightarrow> toUpperRune D (toUpperRune D r) = toUpperRune D r"
  by (auto simp: toUpperRune_def)

lemma strings_ToUpper_idem:
  "\<forall>r\<in>set s. toUpperRune D (toUpperRune D r) = toUpperRune D r \<Longrightarrow>
   strings_ToUpper D (strings_ToUpper D s) = strings_ToUpper D s"
  by (simp add: strings_ToUpper_def)

lemma strings_ToUpper_lit_foo: "strings_ToUpper D (lit ''foo.txt'') = lit ''FOO.TXT''"
  by (simp add: strings_ToUpper_def lit_def toUpperRune_def)

lemma strings_ToUpper_lit_FOO: "strings_ToUpper D (lit ''FOO.TXT'') = lit ''FOO.TXT''"
  by (simp add: strings_ToUpper_def lit_def toUpperRune_def)

text \<open>
  C6. \<open>hashString\<close> is case-insensitive: hashing the upper-cased string gives the same
  result as hashing the string, for every hash type (so for 0, 1, 2 and 3); in particular
  \<open>FOO.TXT\<close> and \<open>foo.txt\<close> have the same hash of type 1, whatever the keystream
  table holds. \<open>hashString\<close> upper-cases once more what it is given, so the general
  statement needs upper-casing to be idempotent on the runes of the string; on ASCII it
  is (\<open>toUpperRune_ascii_idem\<close>), beyond ASCII that is a property of the Unicode
  tables.
\<close>

theorem hashString_case_insensitive:
  "((\<forall>r\<in>set s. toUpperRune D (toUpperRune D r) = toUpperRune D r) \<longrightarrow>
      hashString D (strings_ToUpper D s) hashType = hashString D s hashType) \<and>
   hashString D (lit ''FOO.TXT'') 1 = hashString D (lit ''foo.txt'') 1"
  by (simp add: hashString_def strings_ToUpper_idem strings_ToUpper_lit_foo
      strings_ToUpper_lit_FOO)

theorem hashString_case_insensitive_witness:
  "hashString sample_deps (strings_ToUpper sample_deps (lit ''Global.Txt'')) 2 =
   hashString sample_deps (lit ''Global.Txt'') 2"
proof -
  have ascii: "\<forall>r\<in>set (lit ''Global.Txt'').
       toUpperRune sample_deps (toUpperRune sample_deps r) = toUpperRune sample_deps r"
    by (simp add: lit_def toUpperRune_def)
  with hashString_case_insensitive[of "lit ''Global.Txt''" sample_deps 2]
  show ?thesis by blast
qed

subsection \<open>The word cipher\<close>

lemma seeds_of_run:
  "map seed_after (decrypt_run D seed seed2 d) = map (\<lambda>i. (next_seed ^^ Suc i) seed) [0..<length d]"
proof (induction d arbitrary: seed seed2)
  case Nil
  then show ?case by simp
next
  case (Cons w ws)
  have "map (\<lambda>i. (next_seed ^^ Suc i) seed) [0..<length (w # ws)]
        = next_seed seed # map (\<lambda>i. (next_seed ^^ Suc i) (next_seed seed)) [0..<length ws]"
    by (simp add: upt_conv_Cons map_Suc_upt[symmetric] funpow_swap1 del: upt_Suc)
  then show ?case
    using Cons.IH[of "next_seed seed"] by (simp add: Let_def decrypt_step_def)
qed

lemma length_decrypt_run: "length (decrypt_run D seed seed2 d) = length d"
  by (induction d arbitrary: seed seed2) (simp_all add: Let_def)

lemma seed_after_step: "seed_after (decrypt_step D seed seed2 w) = next_seed seed"
  by (simp add: decrypt_step_def Let_def)

lemma decrypt_run_nth:
  "i < length d \<Longrightarrow>
   decrypt_run D seed seed2 d ! i =
     decrypt_step D ((next_seed ^^ i) seed)
       (if i = 0 then seed2 else seed2_after (decrypt_run D seed seed2 d ! (i - 1))) (d ! i)"
proof (induction d arbitrary: seed seed2 i)
  case Nil
  then show ?case by simp
next
  case (Cons w ws)
  show ?case
  proof (cases i)
    case 0
    then show ?thesis by (simp add: Let_def)
  next
    case (Suc k)
    with Cons.prems have k: "k < length ws" by simp
    show ?thesis
      using Cons.IH[OF k, of "next_seed seed" "seed2_after (decrypt_step D seed seed2 w)"] Suc
      by (cases k) (simp_all add: Let_def seed_after_step funpow_swap1)
  qed
qed

text \<open>
  C7. In \<open>decrypt\<close> the second seed starts at \<open>0xeeeeeeee\<close> and is set, at the end of
  every iteration, from the word just written back (the decrypted word), while the first
  seed follows the recurrence \<open>next_seed\<close>, which looks at no data: two inputs of the
  same length, decrypted with the same seed, go through the same sequence of first seeds,
  namely \<open>next_seed\<close> iterated on the initial seed. The output is a function of the
  table, the data and the seed, so a fixed vector and seed always give the same output.
\<close>

theorem decrypt_seed_schedule:
  "(length d1 = length d2 \<longrightarrow>
      map seed_after (decrypt_run D seed 0xeeeeeeee d1) = map seed_after (decrypt_run D seed 0xeeeeeeee d2)) \<and>
   map seed_after (decrypt_run D seed 0xeeeeeeee d) = map (\<lambda>i. (next_seed ^^ Suc i) seed) [0..<length d] \<and>
   (\<forall>i<length d.
      (let r = decrypt_run D seed 0xeeeeeeee d;
           s2 = (if i = 0 then 0xeeeeeeee else seed2_after (r ! (i - 1)));
           s2a = s2 + CryptoBuffer D (0x400 + unat ((next_seed ^^ i) seed AND 0xff))
       in decrypt D d seed ! i = d ! i XOR ((next_seed ^^ i) seed + s2a) \<and>
          seed2_after (r ! i) = decrypt D d seed ! i + s2a + push_bit 5 s2a + 3))"
proof (intro conjI allI impI)
  assume "length d1 = length d2"
  then show "map seed_after (decrypt_run D seed 0xeeeeeeee d1) = map seed_after (decrypt_run D seed 0xeeeeeeee d2)"
    by (simp only: seeds_of_run)
next
  show "map seed_after (decrypt_run D seed 0xeeeeeeee d) = map (\<lambda>i. (next_seed ^^ Suc i) seed) [0..<length d]"
    by (rule seeds_of_run)
next
  fix i assume i: "i < length d"
  have out: "decrypt D d seed ! i = out_word (decrypt_run D seed 0xeeeeeeee d ! i)"
    using i by (simp add: decrypt_def length_decrypt_run)
  show "let r = decrypt_run D seed 0xeeeeeeee d;
           s2 = (if i = 0 then 0xeeeeeeee else seed2_after (r ! (i - 1)));
           s2a = s2 + CryptoBuffer D (0x400 + unat ((next_seed ^^ i) seed AND 0xff))
       in decrypt D d seed ! i = d ! i XOR ((next_seed ^^ i) seed + s2a) \<and>
          seed2_after (r ! i) = decrypt D d seed ! i + s2a + push_bit 5 s2a + 3"
    unfolding out Let_def
    by (subst (1 2 3) decrypt_run_nth[OF i]) (simp add: decrypt_step_def Let_def)
qed

theorem decrypt_seed_schedule_witness:
  "length [1, 2 :: u32] = length [7, 9 :: u32] \<and>
   map seed_after (decrypt_run sample_deps 5 0xeeeeeeee [1, 2]) =
   map seed_after (decrypt_run sample_deps 5 0xeeeeeeee [7, 9])"
  using decrypt_seed_schedule[of "[1, 2]" "[7, 9]" sample_deps 5 "[]"] by simp

subsection \<open>The byte cipher\<close>

lemma length_put4: "length (put4 data i r) = length data"
  by (simp add: put4_def)

lemma loop_unfold_true:
  "int i < int (length data) - 3 \<Longrightarrow>
   decryptBytes_loop D data seed seed2 i =
   decryptBytes_loop D
             (put4 data i (out_word (decrypt_step D seed seed2 (Uint32 (take 4 (drop i data))))))
             (seed_after (decrypt_step D seed seed2 (Uint32 (take 4 (drop i data)))))
             (seed2_after (decrypt_step D seed seed2 (Uint32 (take 4 (drop i data)))))
             (i + 4)"
  by (rule trans[OF decryptBytes_loop.simps]) (rule if_P)

lemma loop_unfold_false:
  "\<not> int i < int (length data) - 3 \<Longrightarrow> decryptBytes_loop D data seed seed2 i = data"
  by (rule trans[OF decryptBytes_loop.simps]) (rule if_not_P)

lemma length_decryptBytes_loop: "length (decryptBytes_loop D data seed seed2 i) = length data"
proof (induction D data seed seed2 i rule: decryptBytes_loop.induct)
  case (1 D data seed seed2 i)
  show ?case
  proof (cases "int i < int (length data) - 3")
    case True
    show ?thesis
      unfolding loop_unfold_true[OF True] "1"[OF True] by (rule length_put4)
  next
    case False
    show ?thesis unfolding loop_unfold_false[OF False] by (rule refl)
  qed
qed

lemma put4_nth_other: "j < i \<or> i + 3 < j \<Longrightarrow> put4 data i r ! j = data ! j"
  by (auto simp: put4_def)

lemma beyond_last_group:
  "4 dvd (i::nat) \<Longrightarrow> i + 3 < n \<Longrightarrow> 4 * (n div 4) \<le> j \<Longrightarrow> i + 3 < j"
proof -
  assume d: "4 dvd i" and l: "i + 3 < n" and j: "4 * (n div 4) \<le> j"
  from d obtain k where k: "i = 4 * k" by (auto simp: dvd_def)
  from l k have "4 * (k + 1) \<le> n" by simp
  then have "k + 1 \<le> n div 4" by (simp add: less_eq_div_iff_mult_less_eq)
  then have "4 * (k + 1) \<le> 4 * (n div 4)" by simp
  with j k show ?thesis by simp
qed

lemma decryptBytes_loop_frame:
  "4 dvd i \<Longrightarrow> 4 * (length data div 4) \<le> j \<Longrightarrow> decryptBytes_loop D data seed seed2 i ! j = data ! j"
proof (induction D data seed seed2 i rule: decryptBytes_loop.induct)
  case (1 D data seed seed2 i)
  show ?case
  proof (cases "int i < int (length data) - 3")
    case True
    from True have "i + 3 < length data" by simp
    with "1.prems" have far: "i + 3 < j" by (blast intro: beyond_last_group)
    let ?it = "decrypt_step D seed seed2 (Uint32 (take 4 (drop i data)))"
    let ?data' = "put4 data i (out_word ?it)"
    have d4: "4 dvd i + 4" using "1.prems"(1) by simp
    have bound: "4 * (length ?data' div 4) \<le> j" using "1.prems"(2) by (simp only: length_put4)
    have "decryptBytes_loop D data seed seed2 i ! j = ?data' ! j"
      unfolding loop_unfold_true[OF True] by (rule "1.IH"[OF True d4 bound])
    also have "\<dots> = data ! j" using far by (simp add: put4_nth_other)
    finally show ?thesis .
  next
    case False
    show ?thesis unfolding loop_unfold_false[OF False] by (rule refl)
  qed
qed

lemma length_decryptBytes: "length (decryptBytes D data seed) = length data"
  unfolding decryptBytes_def by (rule length_decryptBytes_loop)

lemma decryptBytes_short: "length data < 4 \<Longrightarrow> decryptBytes D data seed = data"
  unfolding decryptBytes_def by (rule loop_unfold_false) simp

lemma decryptBytes_tail:
  "drop (4 * (length data div 4)) (decryptBytes D data seed) = drop (4 * (length data div 4)) data"
proof -
  define n where "n = 4 * (length data div 4)"
  have frame: "decryptBytes D data seed ! j = data ! j" if "n \<le> j" for j
    unfolding decryptBytes_def
  proof (rule decryptBytes_loop_frame)
    show "4 dvd (0::nat)" by (rule dvd_0_right)
    show "4 * (length data div 4) \<le> j" using that by (simp only: n_def)
  qed
  have "drop n (decryptBytes D data seed) = drop n data"
  proof (rule nth_equalityI)
    show "length (drop n (decryptBytes D data seed)) = length (drop n data)"
      by (simp only: length_drop length_decryptBytes)
  next
    fix i assume "i < length (drop n (decryptBytes D data seed))"
    then have i: "n + i < length data" by (simp only: length_drop length_decryptBytes)
    have "drop n (decryptBytes D data seed) ! i = decryptBytes D data seed ! (n + i)"
      using i by (simp only: nth_drop length_decryptBytes le_add1 less_imp_le_nat)
    also have "\<dots> = data ! (n + i)" by (rule frame) (rule le_add1)
    also have "\<dots> = drop n data ! i"
      using i by (simp only: nth_drop le_add1 less_imp_le_nat)
    finally show "drop n (decryptBytes D data seed) ! i = drop n data ! i" .
  qed
  then show ?thesis by (simp only: n_def)
qed

text \<open>
  C8. \<open>decryptBytes\<close> keeps the length of the buffer and leaves every byte from index
  \<open>4 * (len div 4)\<close> on as it was: only whole groups of four bytes are rewritten, the
  trailing one to three bytes are not touched, and a buffer of fewer than four bytes
  comes back unchanged.
\<close>

theorem decryptBytes_tail_untouched:
  "length (decryptBytes D data seed) = length data \<and>
   drop (4 * (length data div 4)) (decryptBytes D data seed) = drop (4 * (length data div 4)) data \<and>
   (length data < 4 \<longrightarrow> decryptBytes D data seed = data)"
  using length_decryptBytes[of D data seed] decryptBytes_tail[of data D seed]
    decryptBytes_short[of data D seed] by blast

theorem decryptBytes_tail_untouched_witness:
  "length [1, 2, 3 :: u8] < 4 \<and> decryptBytes sample_deps [1, 2, 3] 7 = [1, 2, 3]"
  using decryptBytes_tail_untouched[of sample_deps "[1, 2, 3]" 7] by simp

section \<open>Evaluation on the sample environment\<close>

text \<open>
  Simplifying the hash loop under its binders unfolds it on symbolic seeds; the step rule
  evaluates one character at a time on numerals.
\<close>

lemma hashString_loop_step:
  "cryptoAt D (hashType * 0x100 + of_nat char) = Inr t \<Longrightarrow>
   t XOR (seed1 + seed2) = seed1' \<Longrightarrow>
   of_nat char + seed1' + seed2 + push_bit 5 seed2 + 3 = seed2' \<Longrightarrow>
   hashString_loop D hashType seed1' seed2' rest = r \<Longrightarrow>
   hashString_loop D hashType seed1 seed2 (char # rest) = r"
  by (simp add: Let_def)

lemma hashString_upper:
  "strings_ToUpper D key = KEY \<Longrightarrow> hashString_loop D hashType 0x7FED7FED 0xEEEEEEEE KEY = r \<Longrightarrow>
   hashString D key hashType = r"
  by (simp add: hashString_def)

lemmas upper_eval = strings_ToUpper_def lit_def toUpperRune_def
lemmas table_eval = cryptoAt_def sample_deps_def

lemma hash_a_txt_1: "hashString sample_deps (lit ''a.txt'') 1 = Inr 0xEE1C678F"
  by (rule hashString_upper, simp add: upper_eval,
      (rule hashString_loop_step, simp add: table_eval, simp, simp)+, simp)
lemma hash_a_txt_2: "hashString sample_deps (lit ''a.txt'') 2 = Inr 0xDD74EC8F"
  by (rule hashString_upper, simp add: upper_eval,
      (rule hashString_loop_step, simp add: table_eval, simp, simp)+, simp)
lemma hash_a_txt_3: "hashString sample_deps (lit ''a.txt'') 3 = Inr 0x2369A18F"
  by (rule hashString_upper, simp add: upper_eval,
      (rule hashString_loop_step, simp add: table_eval, simp, simp)+, simp)

lemma path_Base_no_slash: "0x2F \<notin> set p \<Longrightarrow> p \<noteq> [] \<Longrightarrow> path_Base p = p"
proof -
  assume ns: "0x2F \<notin> set p" and ne: "p \<noteq> []"
  have d: "dropWhile (\<lambda>c. c = 0x2F) (rev p) = rev p"
    using ns ne by (cases "rev p") auto
  have t: "takeWhile (\<lambda>c. c \<noteq> 0x2F) (rev p) = rev p"
    using ns by (auto intro: takeWhile_eq_all_conv[THEN iffD2])
  show ?thesis using ne by (simp add: path_Base_def d t Let_def)
qed

lemma calculateEncryptionSeed_whole_name:
  "0x2F \<notin> set (FileName b) \<Longrightarrow> FileName b \<noteq> [] \<Longrightarrow>
   map_sum id EncryptionSeed (calculateEncryptionSeed D b) =
     (case hashString D (FileName b) 3 of Inl p \<Rightarrow> Inl p
      | Inr h \<Rightarrow> Inr (if HasFlag b FileFixKey then (h + FilePosition b) XOR UncompressedFileSize b else h))"
  by (simp add: calculateEncryptionSeed_def path_Base_no_slash Let_def split: sum.splits)

lemmas name_eval = normalizedName_def lit_def ReplaceAll.simps strings_ToLower_def toLowerRune_def sample_deps_def

lemma hash_path_1: "hashString sample_deps (sample_path) 1 = Inr 0x3A387218"
  by (rule hashString_upper, simp add: upper_eval sample_path_def,
      (rule hashString_loop_step, simp add: table_eval, simp, simp)+, simp)
lemma hash_path_2: "hashString sample_deps (sample_path) 2 = Inr 0x30548718"
  by (rule hashString_upper, simp add: upper_eval sample_path_def,
      (rule hashString_loop_step, simp add: table_eval, simp, simp)+, simp)
lemma hash_path_3: "hashString sample_deps (sample_path) 3 = Inr 0xBD141018"
  by (rule hashString_upper, simp add: upper_eval sample_path_def,
      (rule hashString_loop_step, simp add: table_eval, simp, simp)+, simp)
lemma hash_slash_1: "hashString sample_deps (lit ''data/a.txt'') 1 = Inr 0x12D9B07B"
  by (rule hashString_upper, simp add: upper_eval sample_path_def,
      (rule hashString_loop_step, simp add: table_eval, simp, simp)+, simp)

lemma norm_upper: "normalizedName sample_deps (lit ''Data/A.TXT'') = sample_path"
  by (simp add: name_eval sample_path_def)
lemma norm_lower: "normalizedName sample_deps (lit ''data/a.txt'') = sample_path"
  by (simp add: name_eval sample_path_def)
lemma lower_path: "strings_ToLower sample_deps (sample_path) = sample_path"
  by (simp add: name_eval sample_path_def)
lemma base_path: "path_Base (sample_path) = sample_path"
  by (rule path_Base_no_slash) (simp_all add: lit_def sample_path_def)

lemma locate_sample:
  "getFileBlockData sample_deps sample_archive (sample_path)
     = Inr \<lparr>FilePosition = 0x20, CompressedFileSize = 3, UncompressedFileSize = 3,
         Flags = 0x80000000, FileName = [], EncryptionSeed = 0\<rparr>"
  by (simp add: getFileBlockData_def getFileHashEntry_def hash_path_1 hash_path_2
      sample_archive_def archive_of_def)

lemma seed_sample:
  "calculateEncryptionSeed sample_deps
     \<lparr>FilePosition = 0x20, CompressedFileSize = 3, UncompressedFileSize = 3,
         Flags = 0x80000000, FileName = sample_path, EncryptionSeed = 0\<rparr>
   = Inr \<lparr>FilePosition = 0x20, CompressedFileSize = 3, UncompressedFileSize = 3,
         Flags = 0x80000000, FileName = sample_path, EncryptionSeed = 0xBD141018\<rparr>"
  by (simp add: calculateEncryptionSeed_def base_path hash_path_3 HasFlag_def FileFixKey_def)

lemma ReadFile_sample:
  "ReadFile sample_deps sample_archive (lit ''Data/A.TXT'') =
     (Inr [0, 0, 0],
      sample_archive\<lparr>fileCache := [sample_path \<mapsto> [0, 0, 0]]\<rparr>)"
proof -
  have cache: "fileCache sample_archive = Map.empty"
    by (simp add: sample_archive_def archive_of_def)
  have stream: "readStream sample_deps v
       \<lparr>FilePosition = 0x20, CompressedFileSize = 3, UncompressedFileSize = 3,
         Flags = 0x80000000, FileName = sample_path, EncryptionSeed = 0xBD141018\<rparr> n
       = Inr [0, 0, 0]" for v n
  proof -
    have "replicate 3 (0 :: u8) = [0, 0, 0]" by (simp add: numeral_3_eq_3)
    then show ?thesis by (simp add: sample_deps_def)
  qed
  show ?thesis
    unfolding ReadFile_def norm_upper Let_def
    by (simp add: cache locate_sample lower_path seed_sample stream)
qed

lemmas listfile_table_eval = cryptoAt_def listfile_deps_def sample_deps_def

lemma hash_listfile_1: "hashString (listfile_deps p) (lit ''(listfile)'') 1 = Inr 0x707A2B6A"
  by (rule hashString_upper, simp add: upper_eval,
      (rule hashString_loop_step, simp add: listfile_table_eval, simp, simp)+, simp)
lemma hash_listfile_2: "hashString (listfile_deps p) (lit ''(listfile)'') 2 = Inr 0x0F14426A"
  by (rule hashString_upper, simp add: upper_eval,
      (rule hashString_loop_step, simp add: listfile_table_eval, simp, simp)+, simp)
lemma hash_listfile_3: "\<exists>h. hashString (listfile_deps p) (lit ''(listfile)'') 3 = Inr h"
  by (rule exI, rule hashString_upper, simp add: upper_eval,
      (rule hashString_loop_step, simp add: listfile_table_eval, simp, simp)+, simp)

lemma norm_listfile: "normalizedName (listfile_deps p) (lit ''(listfile)'') = lit ''(listfile)''"
  by (simp add: name_eval listfile_deps_def)
lemma lower_listfile: "strings_ToLower (listfile_deps p) (lit ''(listfile)'') = lit ''(listfile)''"
  by (simp add: name_eval listfile_deps_def)
lemma base_listfile: "path_Base (lit ''(listfile)'') = lit ''(listfile)''"
  by (rule path_Base_no_slash) (simp_all add: lit_def)

lemma ReadFile_listfile:
  "ReadFile (listfile_deps p) (listfile_archive p) (lit ''(listfile)'') =
     (Inr p, (listfile_archive p)\<lparr>fileCache := [lit ''(listfile)'' \<mapsto> p]\<rparr>)"
proof -
  obtain h where h: "hashString (listfile_deps p) (lit ''(listfile)'') 3 = Inr h"
    using hash_listfile_3 by blast
  have cache: "fileCache (listfile_archive p) = Map.empty"
    by (simp add: listfile_archive_def archive_of_def)
  have locate: "getFileBlockData (listfile_deps p) (listfile_archive p) (lit ''(listfile)'')
       = Inr (BlockTableEntries (listfile_archive p) ! 0)"
    by (simp add: getFileBlockData_def getFileHashEntry_def hash_listfile_1 hash_listfile_2
        listfile_archive_def archive_of_def)
  have stream: "readStream (listfile_deps p) v b n = Inr p" for v b n
    by (simp add: listfile_deps_def)
  show ?thesis
    unfolding ReadFile_def norm_listfile Let_def
    by (simp add: cache locate lower_listfile calculateEncryptionSeed_def base_listfile h stream)
qed

section \<open>File locator: properties\<close>

lemma getFileBlockData_index_out_of_bounds:
  "getFileHashEntry D v fileName = Inr fileEntry \<Longrightarrow>
   BlockIndex fileEntry \<ge> of_nat (length (BlockTableEntries v)) \<Longrightarrow>
   getFileBlockData D v fileName = Inr zeroBlockTableEntry"
  by (simp add: getFileBlockData_def)

lemma scanHashTable_first_match:
  "scanHashTable es a b =
     (case find (\<lambda>e. NamePartA e = a \<and> NamePartB e = b) es of
        None \<Rightarrow> Inl (Returned ErrFileNotFound) | Some e \<Rightarrow> Inr e)"
  by (induction es) auto

text \<open>
  C1. Locating a file: the scan returns the first stored entry whose two name parts equal
  the two hashes (\<open>scanHashTable_first_match\<close>), and \<open>ErrFileNotFound\<close> when there is
  none. When the matching entry's block index is not below the length of the block table,
  however, \<open>getFileBlockData\<close> returns the zero block entry together with the \<open>nil\<close>
  error of the successful lookup, not \<open>ErrFileNotFound\<close>: here for an archive with an
  empty block table whose only hash entry carries the hashes of \<open>a.txt\<close>.
\<close>

theorem getFileBlockData_out_of_bounds_no_error:
  "getFileBlockData sample_deps
     (archive_of [\<lparr>NamePartA = 0xEE1C678F, NamePartB = 0xDD74EC8F, Locale = 0, Platform = 0,
                   BlockIndex = 7\<rparr>] [])
     (lit ''a.txt'') = Inr zeroBlockTableEntry"
  by (simp add: getFileBlockData_def getFileHashEntry_def hash_a_txt_1 hash_a_txt_2 archive_of_def)

section \<open>Encryption seed: properties\<close>

text \<open>
  C3. The seed that \<open>ReadFile\<close> computes for the request \<open>data/a.txt\<close>: the name has
  become \<open>data\a.txt\<close>, in which \<open>path.Base\<close> finds no slash, so the whole path is
  hashed (\<open>0xBD141018\<close> under the sample table) and not its last component \<open>a.txt\<close>
  (\<open>0x2369A18F\<close>). For any name without a slash the seed is the hash of the whole
  name (\<open>calculateEncryptionSeed_whole_name\<close>), adjusted by position and size under
  the fix-key flag.
\<close>

theorem calculateEncryptionSeed_hashes_whole_path:
  "calculateEncryptionSeed sample_deps
     ((BlockTableEntries sample_archive ! 0)
        \<lparr>FileName := strings_ToLower sample_deps (normalizedName sample_deps (lit ''data/a.txt''))\<rparr>)
     = Inr ((BlockTableEntries sample_archive ! 0)\<lparr>FileName := sample_path, EncryptionSeed := 0xBD141018\<rparr>) \<and>
   hashString sample_deps sample_path 3 = Inr 0xBD141018 \<and>
   hashString sample_deps (lit ''a.txt'') 3 = Inr 0x2369A18F"
  using seed_sample
  by (simp add: norm_lower lower_path hash_path_3 hash_a_txt_3 sample_archive_def archive_of_def)

section \<open>Content cache: properties\<close>

lemma ReadFile_ok_cached:
  "ReadFile D v n = (Inr buf, v') \<Longrightarrow> fileCache v' (normalizedName D n) = Some buf"
  by (auto simp: ReadFile_def Let_def split: option.splits sum.splits)

lemma ReadFile_hit:
  "fileCache w (normalizedName D n) = Some buf \<Longrightarrow> ReadFile D w n = (Inr buf, w)"
  by (simp add: ReadFile_def Let_def)

text \<open>
  C9. \<open>ReadFile\<close> stores the buffer of a successful read under the normalized name, and a
  later call with any name that normalizes to the same key returns that buffer and leaves
  the archive as it is. The later call is determined by the cache alone: it gives this
  result for every archive \<open>w\<close> with the same cache, whatever its hash and block tables
  hold, and for every environment \<open>D'\<close> that normalizes the name to the same key,
  whatever its keystream table and extractor are; so neither the locator nor the extractor
  takes part in it.
\<close>

theorem ReadFile_second_call_from_cache:
  assumes "ReadFile D v n1 = (Inr buf, v')"
      and "normalizedName D' n2 = normalizedName D n1"
      and "fileCache w = fileCache v'"
  shows "ReadFile D' w n2 = (Inr buf, w)"
proof -
  from assms(1) have "fileCache v' (normalizedName D n1) = Some buf" by (rule ReadFile_ok_cached)
  with assms(2,3) have "fileCache w (normalizedName D' n2) = Some buf" by simp
  then show ?thesis by (rule ReadFile_hit)
qed

theorem ReadFile_second_call_from_cache_witness:
  "ReadFile sample_deps
     (sample_archive\<lparr>fileCache := [sample_path \<mapsto> [0, 0, 0]]\<rparr>)
     (lit ''data/a.txt'')
   = (Inr [0, 0, 0], sample_archive\<lparr>fileCache := [sample_path \<mapsto> [0, 0, 0]]\<rparr>)"
  by (rule ReadFile_second_call_from_cache[OF ReadFile_sample])
     (simp_all add: norm_upper norm_lower)

section \<open>Listfile: properties\<close>

lemma open_line_Nil: "open_line [] ls = ls"
  by (simp add: open_line_def split: list.splits)

lemma open_line_Cons: "open_line line (l # ls) = (line @ l) # ls"
  by (simp add: open_line_def)

lemma scanLines_lf_lines:
  "\<forall>l\<in>set (open_line line (lf_lines s)). length l \<le> 65535 \<Longrightarrow>
   scanLines line s = map dropCR (open_line line (lf_lines s))"
proof (induction s arbitrary: line)
  case Nil
  then show ?case by (simp add: open_line_def)
next
  case (Cons c cs)
  show ?case
  proof (cases "c = 0x0A")
    case True
    with Cons.prems have "\<forall>l\<in>set (open_line [] (lf_lines cs)). length l \<le> 65535"
      by (simp add: open_line_Cons open_line_Nil)
    from Cons.IH[OF this] True show ?thesis
      by (simp add: open_line_Cons open_line_Nil)
  next
    case False
    have eq: "open_line line (lf_lines (c # cs)) = open_line (line @ [c]) (lf_lines cs)"
      using False by (simp add: open_line_def split: list.splits)
    from Cons.prems have short: "\<not> 65535 \<le> length line"
      using False by (auto simp: open_line_def split: list.splits)
    from Cons.prems have "\<forall>l\<in>set (open_line (line @ [c]) (lf_lines cs)). length l \<le> 65535"
      by (simp only: eq)
    from Cons.IH[OF this] False short show ?thesis
      unfolding eq by simp
  qed
qed

lemma parseFileList_lines:
  "\<forall>l\<in>set (lf_lines (strings_TrimRight data 0)). length l \<le> 65535 \<Longrightarrow>
   parseFileList data = map dropCR (lf_lines (strings_TrimRight data 0))"
  using scanLines_lf_lines[of "[]" "strings_TrimRight data 0"]
  by (simp add: parseFileList_def open_line_Nil)

lemma parse_example:
  "parseFileList (bytes ''a.txt'' @ [0x0D, 0x0A] @ bytes ''b.txt'' @ [0x0D, 0x0A, 0, 0]) = [bytes ''a.txt'', bytes ''b.txt'']"
  by (simp add: parseFileList_def bytes_def strings_TrimRight_def dropCR_def)

text \<open>
  C5 (as amended). \<open>GetFileList\<close> reads \<open>(listfile)\<close>, strips the trailing NUL
  bytes, cuts the rest at every line feed, drops one trailing carriage return from each
  line, and returns every line in stored order, empty lines included, as long as no line
  is longer than 65535 bytes; the payload \<open>a.txt\r\nb.txt\r\n\0\0\<close> parses to
  \<open>a.txt\<close>, \<open>b.txt\<close>.
\<close>

theorem GetFileList_all_lines:
  "(ReadFile D v (lit ''(listfile)'') = (Inr data, v') \<and>
    (\<forall>l\<in>set (lf_lines (strings_TrimRight data 0)). length l \<le> 65535) \<longrightarrow>
      GetFileList D v = (Inr (map dropCR (lf_lines (strings_TrimRight data 0))), v')) \<and>
   parseFileList (bytes ''a.txt'' @ [0x0D, 0x0A] @ bytes ''b.txt'' @ [0x0D, 0x0A, 0, 0])
     = [bytes ''a.txt'', bytes ''b.txt'']"
proof (intro conjI impI)
  assume "ReadFile D v (lit ''(listfile)'') = (Inr data, v') \<and>
    (\<forall>l\<in>set (lf_lines (strings_TrimRight data 0)). length l \<le> 65535)"
  then show "GetFileList D v = (Inr (map dropCR (lf_lines (strings_TrimRight data 0))), v')"
    by (simp add: GetFileList_def parseFileList_lines)
next
  show "parseFileList (bytes ''a.txt'' @ [0x0D, 0x0A] @ bytes ''b.txt'' @ [0x0D, 0x0A, 0, 0])
     = [bytes ''a.txt'', bytes ''b.txt'']"
    by (rule parse_example)
qed

theorem GetFileList_all_lines_witness:
  "fst (GetFileList (listfile_deps example_payload) (listfile_archive example_payload))
     = Inr (map dropCR (lf_lines (strings_TrimRight example_payload 0)))"
proof -
  have short: "\<forall>l\<in>set (lf_lines (strings_TrimRight example_payload 0)). length l \<le> 65535"
    by (simp add: example_payload_def bytes_def strings_TrimRight_def)
  from GetFileList_all_lines[of "listfile_deps example_payload" "listfile_archive example_payload"
      example_payload "(listfile_archive example_payload)\<lparr>fileCache := [lit ''(listfile)'' \<mapsto> example_payload]\<rparr>"]
    ReadFile_listfile[of example_payload] short
  show ?thesis by simp
qed

text \<open>
  The claim as stated fails: a blank line in the payload comes back as an empty string.
\<close>

theorem GetFileList_keeps_empty_lines:
  "fst (GetFileList (listfile_deps blank_line_payload) (listfile_archive blank_line_payload))
     = Inr [bytes ''a'', [], bytes ''b'']"
proof -
  have "parseFileList blank_line_payload = [bytes ''a'', [], bytes ''b'']"
    by (simp add: blank_line_payload_def parseFileList_def bytes_def strings_TrimRight_def dropCR_def)
  then show ?thesis by (simp add: GetFileList_def ReadFile_listfile)
qed

end
